theory Spec2Isabelle
  imports Complex_Main
begin

section \<open>Numbers, bytes and text\<close>

text \<open>
  The middleware (\<^verbatim>\<open>docs/middleware/scale_middleware.py\<close>) computes with Python
  floats. They are modelled as \<^typ>\<open>real\<close>: every arithmetic operation is exact, and
  the rounding of IEEE doubles is not part of the model. A \<^verbatim>\<open>bytes\<close> value and
  the ASCII text decoded from it are both lists of \<^typ>\<open>char\<close> (a \<^typ>\<open>char\<close> is one
  byte). Exceptions are values of \<open>py_error\<close>: \<open>ValueError\<close> as Python raises it,
  and \<open>SendFailure\<close> for an exception of a listener's \<^verbatim>\<open>send\<close> that is not
  \<^verbatim>\<open>ConnectionClosed\<close>. A function that can raise returns a sum with \<open>Inl\<close> for the
  exception.
\<close>

type_synonym bytes = "char list"

datatype py_error = ValueError | SendFailure

definition code :: "char \<Rightarrow> nat" where
  "code c = of_char c"

definition is_digit :: "char \<Rightarrow> bool" where
  "is_digit c = (48 \<le> code c \<and> code c \<le> 57)"

text \<open>
  The characters for which \<^verbatim>\<open>str.isspace()\<close> holds in the ASCII range: tab to
  carriage return, the four separators \<^verbatim>\<open>\x1c\<close> to \<^verbatim>\<open>\x1f\<close>, and the
  space. Both \<^verbatim>\<open>str.strip()\<close> and the class \<^verbatim>\<open>\s\<close> of a \<^verbatim>\<open>str\<close> pattern
  use this set.
\<close>

definition is_space :: "char \<Rightarrow> bool" where
  "is_space c = ((9 \<le> code c \<and> code c \<le> 13) \<or> (28 \<le> code c \<and> code c \<le> 32))"

definition is_sign :: "char \<Rightarrow> bool" where
  "is_sign c = (c = CHR ''+'' \<or> c = CHR ''-'')"

definition is_dot :: "char \<Rightarrow> bool" where
  "is_dot c = (c = CHR ''.'')"

text \<open>\<^verbatim>\<open>data.decode('ascii', errors='ignore')\<close>: every byte above 127 is dropped.\<close>

definition decode_ascii_ignore :: "bytes \<Rightarrow> string" where
  "decode_ascii_ignore data = filter (\<lambda>c. code c < 128) data"

text \<open>\<^verbatim>\<open>str.strip()\<close>: whitespace is removed from both ends.\<close>

definition strip :: "string \<Rightarrow> string" where
  "strip s = rev (dropWhile is_space (rev (dropWhile is_space s)))"

subsection \<open>\<^verbatim>\<open>float()\<close> and \<^verbatim>\<open>round()\<close>\<close>

fun digits_value :: "nat \<Rightarrow> string \<Rightarrow> nat" where
  "digits_value acc [] = acc"
| "digits_value acc (c # cs) = digits_value (10 * acc + (code c - 48)) cs"

text \<open>
  \<^verbatim>\<open>float(s)\<close> on the plain decimal literals: an optional sign, digits, an optional
  point, digits, with at least one digit. Python's \<^verbatim>\<open>float\<close> accepts more
  (exponents, \<^verbatim>\<open>inf\<close>, \<^verbatim>\<open>nan\<close>, underscores, surrounding blanks); the model
  raises \<open>ValueError\<close> there, so it raises at least wherever Python does.
\<close>

definition py_float :: "string \<Rightarrow> py_error + real" where
  "py_float s =
     (let neg = (case s of [] \<Rightarrow> False | c # _ \<Rightarrow> c = CHR ''-'');
          body = (case s of [] \<Rightarrow> [] | c # r \<Rightarrow> if is_sign c then r else s);
          ip = takeWhile is_digit body;
          r = dropWhile is_digit body;
          fp = (case r of [] \<Rightarrow> [] | _ # r' \<Rightarrow> r');
          ok = (case r of [] \<Rightarrow> True | c # r' \<Rightarrow> is_dot c \<and> list_all is_digit r');
          v = real (digits_value 0 ip) + real (digits_value 0 fp) / 10 ^ length fp
      in if ok \<and> (ip \<noteq> [] \<or> fp \<noteq> []) then Inr (if neg then - v else v)
         else Inl ValueError)"

text \<open>
  \<^verbatim>\<open>round(x, ndigits)\<close>: to the nearest multiple of \<open>10 ^ - ndigits\<close>, a tie going
  to the even one.
\<close>

definition round_half_even :: "real \<Rightarrow> int" where
  "round_half_even x =
     (let f = \<lfloor>x\<rfloor>; d = x - of_int f
      in if d < 1 / 2 then f else if 1 / 2 < d then f + 1
         else if even f then f else f + 1)"

definition py_round :: "real \<Rightarrow> nat \<Rightarrow> real" where
  "py_round x ndigits = of_int (round_half_even (x * 10 ^ ndigits)) / 10 ^ ndigits"

section \<open>Regular expressions\<close>

text \<open>
  The patterns of \<^verbatim>\<open>AclasPS6XParser.PATTERNS\<close> are built from combinators that
  behave as Python's backtracking matcher does: a pattern maps the input to the list of
  all its matches at the start of the input, in the order in which the matcher tries
  them, each with the groups captured and the input left over. The first element is the
  match \<^verbatim>\<open>re\<close> reports. Every quantifier of the patterns stands on a single character
  class, so one combinator \<open>rep\<close> covers them all: greedy, it tries the longest run first.
\<close>

type_synonym match = "string list \<times> string"
type_synonym regex = "string \<Rightarrow> match list"

definition rep :: "(char \<Rightarrow> bool) \<Rightarrow> nat \<Rightarrow> nat option \<Rightarrow> regex" where
  "rep P lo hi s =
     (let n = length (takeWhile P s);
          m = (case hi of None \<Rightarrow> n | Some h \<Rightarrow> min h n)
      in map (\<lambda>k. ([], drop k s)) (rev [lo ..< Suc m]))"

definition seq :: "regex \<Rightarrow> regex \<Rightarrow> regex" where
  "seq a b s = concat (map (\<lambda>(g1, r1). map (\<lambda>(g2, r2). (g1 @ g2, r2)) (b r1)) (a s))"

definition grp :: "regex \<Rightarrow> regex" where
  "grp a s = map (\<lambda>(g, r). (take (length s - length r) s # g, r)) (a s)"

definition re_lit :: "char \<Rightarrow> regex" where
  "re_lit c = rep (\<lambda>x. x = c) 1 (Some 1)"

definition re_cls :: "(char \<Rightarrow> bool) \<Rightarrow> regex" where
  "re_cls P = rep P 1 (Some 1)"

definition re_opt :: "(char \<Rightarrow> bool) \<Rightarrow> regex" where
  "re_opt P = rep P 0 (Some 1)"

definition re_star :: "(char \<Rightarrow> bool) \<Rightarrow> regex" where
  "re_star P = rep P 0 None"

definition re_plus :: "(char \<Rightarrow> bool) \<Rightarrow> regex" where
  "re_plus P = rep P 1 None"

text \<open>\<^verbatim>\<open>\d+\.?\d*\<close> and \<^verbatim>\<open>[+-]?\d+\.?\d*\<close>\<close>

definition decimal_re :: regex where
  "decimal_re = seq (re_plus is_digit) (seq (re_opt is_dot) (re_star is_digit))"

definition signed_decimal_re :: regex where
  "signed_decimal_re = seq (re_opt is_sign) decimal_re"

text \<open>\<^verbatim>\<open>P(\d{4,6})W([+-]?\d+\.?\d*)\<close>\<close>

definition PATTERN_plu_weight :: regex where
  "PATTERN_plu_weight =
     seq (re_lit CHR ''P'') (seq (grp (rep is_digit 4 (Some 6)))
       (seq (re_lit CHR ''W'') (grp signed_decimal_re)))"

text \<open>\<^verbatim>\<open>P(\d{4,6})W([+-]?\d+\.?\d*)U(\d+\.?\d*)T(\d+\.?\d*)\<close>\<close>

definition PATTERN_full :: regex where
  "PATTERN_full =
     seq (re_lit CHR ''P'') (seq (grp (rep is_digit 4 (Some 6)))
       (seq (re_lit CHR ''W'') (seq (grp signed_decimal_re)
         (seq (re_lit CHR ''U'') (seq (grp decimal_re)
           (seq (re_lit CHR ''T'') (grp decimal_re)))))))"

text \<open>\<^verbatim>\<open>W([+-]?\d+\.?\d*)\<close>\<close>

definition PATTERN_weight_only :: regex where
  "PATTERN_weight_only = seq (re_lit CHR ''W'') (grp signed_decimal_re)"

text \<open>\<^verbatim>\<open>(\d+\.?\d*)\s*[kK][gG]\<close>\<close>

definition PATTERN_simple :: regex where
  "PATTERN_simple =
     seq (grp decimal_re) (seq (re_star is_space)
       (seq (re_cls (\<lambda>c. c = CHR ''k'' \<or> c = CHR ''K''))
            (re_cls (\<lambda>c. c = CHR ''g'' \<or> c = CHR ''G''))))"

text \<open>
  \<^verbatim>\<open>pattern.search(text)\<close> followed by \<^verbatim>\<open>match.groups()\<close>: the first match at
  the leftmost position that has one; the end of the text is a position too.
\<close>

fun re_search :: "regex \<Rightarrow> string \<Rightarrow> string list option" where
  "re_search r [] = (case r [] of [] \<Rightarrow> None | (g, _) # _ \<Rightarrow> Some g)"
| "re_search r (c # cs) =
     (case r (c # cs) of [] \<Rightarrow> re_search r cs | (g, _) # _ \<Rightarrow> Some g)"

section \<open>\<^verbatim>\<open>AclasPS6XParser.parse\<close>\<close>

text \<open>The dictionary \<^verbatim>\<open>parse\<close> returns.\<close>

record frame =
  product_id :: string
  weight :: real
  unit_price :: real
  total_price :: real

definition default_plu :: string where
  "default_plu = ''0000''"

text \<open>
  The four branches of \<^verbatim>\<open>parse\<close>, each from the groups of its match. Unpacking
  \<^verbatim>\<open>match.groups()\<close> into the wrong number of names raises \<open>ValueError\<close>.
\<close>

definition parse_full :: "string list \<Rightarrow> py_error + frame" where
  "parse_full gs =
     (case gs of
        [plu, w, u, t] \<Rightarrow>
          (case py_float w of Inl e \<Rightarrow> Inl e | Inr wv \<Rightarrow>
          (case py_float u of Inl e \<Rightarrow> Inl e | Inr uv \<Rightarrow>
          (case py_float t of Inl e \<Rightarrow> Inl e | Inr tv \<Rightarrow>
             Inr \<lparr>product_id = plu, weight = wv, unit_price = uv, total_price = tv\<rparr>)))
      | _ \<Rightarrow> Inl ValueError)"

definition parse_plu_weight :: "(string \<rightharpoonup> real) \<Rightarrow> string list \<Rightarrow> py_error + frame" where
  "parse_plu_weight plu_prices gs =
     (case gs of
        [plu, w] \<Rightarrow>
          (case py_float w of Inl e \<Rightarrow> Inl e | Inr wv \<Rightarrow>
             (let up = (case plu_prices plu of None \<Rightarrow> 0 | Some p \<Rightarrow> p)
              in Inr \<lparr>product_id = plu, weight = wv, unit_price = up,
                      total_price = py_round (wv * up) 2\<rparr>))
      | _ \<Rightarrow> Inl ValueError)"

definition parse_weight :: "string list \<Rightarrow> py_error + frame" where
  "parse_weight gs =
     (case gs of
        w # _ \<Rightarrow>
          (case py_float w of Inl e \<Rightarrow> Inl e | Inr wv \<Rightarrow>
             Inr \<lparr>product_id = default_plu, weight = wv, unit_price = 0, total_price = 0\<rparr>)
      | [] \<Rightarrow> Inl ValueError)"

definition lift_frame :: "py_error + frame \<Rightarrow> py_error + frame option" where
  "lift_frame r = (case r of Inl e \<Rightarrow> Inl e | Inr f \<Rightarrow> Inr (Some f))"

text \<open>The body of the \<^verbatim>\<open>try\<close> block of \<^verbatim>\<open>parse\<close>.\<close>

definition parse_body :: "(string \<rightharpoonup> real) \<Rightarrow> bytes \<Rightarrow> py_error + frame option" where
  "parse_body plu_prices data =
     (let text = strip (decode_ascii_ignore data) in
      if text = [] then Inr None
      else case re_search PATTERN_full text of
        Some gs \<Rightarrow> lift_frame (parse_full gs)
      | None \<Rightarrow>
      (case re_search PATTERN_plu_weight text of
        Some gs \<Rightarrow> lift_frame (parse_plu_weight plu_prices gs)
      | None \<Rightarrow>
      (case re_search PATTERN_weight_only text of
        Some gs \<Rightarrow> lift_frame (parse_weight gs)
      | None \<Rightarrow>
      (case re_search PATTERN_simple text of
        Some gs \<Rightarrow> lift_frame (parse_weight gs)
      | None \<Rightarrow> Inr None))))"

text \<open>\<^verbatim>\<open>parse\<close>: \<^verbatim>\<open>except Exception\<close> turns every exception of the body into \<^verbatim>\<open>None\<close>.\<close>

definition parse :: "(string \<rightharpoonup> real) \<Rightarrow> bytes \<Rightarrow> frame option" where
  "parse plu_prices data =
     (case parse_body plu_prices data of Inl e \<Rightarrow> None | Inr r \<Rightarrow> r)"


section \<open>Configuration\<close>

text \<open>
  The entries of \<^verbatim>\<open>config['scale']\<close> and \<^verbatim>\<open>config['plu_prices']\<close>, which are all
  that the reading pipeline looks up, and their values in \<^verbatim>\<open>DEFAULT_CONFIG\<close>.
\<close>

record config =
  stability_threshold :: real
  stability_readings :: int
  duplicate_timeout :: real
  plu_prices :: "string \<rightharpoonup> real"

definition DEFAULT_CONFIG :: config where
  "DEFAULT_CONFIG =
     \<lparr>stability_threshold = 1 / 100, stability_readings = 3, duplicate_timeout = 2,
      plu_prices = map_of [(''0001'', 850), (''0002'', 1200), (''0003'', 650),
                           (''0004'', 480), (''0005'', 950)]\<rparr>"

section \<open>\<^verbatim>\<open>ScaleReading\<close> and \<^verbatim>\<open>StabilityBuffer\<close>\<close>

text \<open>
  A \<^verbatim>\<open>ScaleReading\<close> has the four fields of a parsed frame and a timestamp, the
  string \<^verbatim>\<open>datetime.now().isoformat()\<close>.
\<close>

record ScaleReading = frame +
  timestamp :: string

text \<open>
  Times are seconds on the wall clock, so that \<^verbatim>\<open>(a - b).total_seconds()\<close> is
  \<open>a - b\<close>.
\<close>

record StabilityBuffer =
  readings :: "real list"
  last_sent_weight :: "real option"
  last_sent_time :: "real option"

definition add_reading :: "StabilityBuffer \<Rightarrow> real \<Rightarrow> StabilityBuffer" where
  "add_reading b w =
     (let rs = readings b @ [w]
      in b\<lparr>readings := (if length rs > 10 then tl rs else rs)\<rparr>)"

text \<open>
  The slice \<^verbatim>\<open>xs[-n:]\<close>: the last \<open>n\<close> elements for a positive \<open>n\<close> (all of them
  when there are fewer), the whole list for \<open>n = 0\<close>, and \<^verbatim>\<open>xs[k:]\<close> for \<open>n = - k\<close>.
\<close>

definition last_n :: "int \<Rightarrow> 'a list \<Rightarrow> 'a list" where
  "last_n n xs = (if n > 0 then drop (length xs - nat n) xs else drop (nat (- n)) xs)"

text \<open>\<^verbatim>\<open>max\<close> and \<^verbatim>\<open>min\<close> of a list raise \<open>ValueError\<close> on the empty list.\<close>

definition py_max :: "real list \<Rightarrow> py_error + real" where
  "py_max xs = (case xs of [] \<Rightarrow> Inl ValueError | x # r \<Rightarrow> Inr (fold max r x))"

definition py_min :: "real list \<Rightarrow> py_error + real" where
  "py_min xs = (case xs of [] \<Rightarrow> Inl ValueError | x # r \<Rightarrow> Inr (fold min r x))"

definition is_stable :: "StabilityBuffer \<Rightarrow> real \<Rightarrow> int \<Rightarrow> py_error + bool" where
  "is_stable b threshold required_readings =
     (if int (length (readings b)) < required_readings then Inr False
      else let recent = last_n required_readings (readings b)
           in case py_max recent of Inl e \<Rightarrow> Inl e | Inr mx \<Rightarrow>
             (case py_min recent of Inl e \<Rightarrow> Inl e | Inr mn \<Rightarrow>
                Inr (mx - mn \<le> threshold)))"

definition get_stable_weight :: "StabilityBuffer \<Rightarrow> real" where
  "get_stable_weight b = py_round (sum_list (last_n 3 (readings b)) / 3) 3"

text \<open>\<open>now\<close> is the value \<^verbatim>\<open>datetime.now()\<close> returns inside the method.\<close>

definition is_duplicate :: "StabilityBuffer \<Rightarrow> real \<Rightarrow> real \<Rightarrow> real \<Rightarrow> bool" where
  "is_duplicate b w timeout now =
     (case last_sent_weight b of None \<Rightarrow> False
      | Some lw \<Rightarrow>
          if \<bar>w - lw\<bar> > 1 / 100 then False
          else (case last_sent_time b of None \<Rightarrow> False
                | Some lt \<Rightarrow> now - lt < timeout))"

definition mark_sent :: "StabilityBuffer \<Rightarrow> real \<Rightarrow> real \<Rightarrow> StabilityBuffer" where
  "mark_sent b w now = b\<lparr>last_sent_weight := Some w, last_sent_time := Some now\<rparr>"

section \<open>The sinks\<close>

text \<open>
  A listener is named by a number. What \<^verbatim>\<open>await client.send(message)\<close> does is
  given by the environment: it returns, it raises
  \<^verbatim>\<open>websockets.exceptions.ConnectionClosed\<close>, or it raises another exception.
  Listeners join and leave through \<^verbatim>\<open>handler\<close>, which runs beside the loop and is
  not modelled: the set of clients is part of the state, and every property is stated for
  any such set. The message is the reading itself; its JSON text is not modelled.
\<close>

type_synonym client = nat

datatype send_result = Sent | ConnectionClosed | SendRaises

text \<open>
  The \<^verbatim>\<open>for\<close> loop of \<^verbatim>\<open>broadcast\<close> over the clients in the order of iteration:
  the clients the message was sent to, the clients put into \<^verbatim>\<open>disconnected\<close>, and
  whether an exception left the loop. Only \<^verbatim>\<open>ConnectionClosed\<close> is caught.
\<close>

fun send_each :: "(client \<Rightarrow> send_result) \<Rightarrow> client list \<Rightarrow> client list \<times> client list \<times> bool" where
  "send_each send [] = ([], [], False)"
| "send_each send (c # cs) =
     (case send c of
        Sent \<Rightarrow> (case send_each send cs of (d, x, r) \<Rightarrow> (c # d, x, r))
      | ConnectionClosed \<Rightarrow> (case send_each send cs of (d, x, r) \<Rightarrow> (d, c # x, r))
      | SendRaises \<Rightarrow> ([], [], True))"

text \<open>
  \<^verbatim>\<open>ScaleWebSocketServer.broadcast\<close>: the clients the message was sent to, and either
  the exception that leaves the method or the set of clients it keeps.
\<close>

definition broadcast ::
  "client list \<Rightarrow> (client \<Rightarrow> send_result) \<Rightarrow> client list \<times> (py_error + client list)" where
  "broadcast clients send =
     (if clients = [] then ([], Inr clients)
      else case send_each send clients of
        (d, x, True) \<Rightarrow> (d, Inl SendFailure)
      | (d, x, False) \<Rightarrow> (d, Inr (filter (\<lambda>c. c \<notin> set x) clients)))"

text \<open>
  \<^verbatim>\<open>TransactionLogger.log\<close>: the file is the list of the readings written, one per
  line; whether \<^verbatim>\<open>open\<close> and \<^verbatim>\<open>write\<close> succeed is given by the environment, and
  \<^verbatim>\<open>except Exception\<close> keeps a failure inside the method.
\<close>

definition logger_log :: "ScaleReading list \<Rightarrow> bool \<Rightarrow> ScaleReading \<Rightarrow> ScaleReading list" where
  "logger_log file write_ok r = (if write_ok then file @ [r] else file)"

section \<open>\<^verbatim>\<open>ScaleMiddleware.process_reading\<close>\<close>

text \<open>
  The state the method works on, and what the environment supplies during one call: the
  three readings of the clock (in \<^verbatim>\<open>is_duplicate\<close>, for the timestamp, in
  \<^verbatim>\<open>mark_sent\<close>), whether the log can be written, and what each listener's
  \<^verbatim>\<open>send\<close> does.
\<close>

record pipeline =
  stability :: StabilityBuffer
  clients :: "client list"
  log_file :: "ScaleReading list"

record env =
  now_check :: real
  now_stamp :: string
  now_mark :: real
  log_ok :: bool
  send :: "client \<Rightarrow> send_result"

text \<open>
  How a call ends: at one of the three early returns, with an exception of
  \<^verbatim>\<open>is_stable\<close>, or after the reading was built, marked as sent, logged and
  broadcast (the clients it was sent to, and the exception of \<^verbatim>\<open>broadcast\<close> if it
  raised one).
\<close>

datatype outcome =
    Skipped
  | Unstable
  | Duplicate real
  | Failed py_error
  | Emitted ScaleReading "client list" "py_error option"

definition process_reading :: "config \<Rightarrow> pipeline \<Rightarrow> frame \<Rightarrow> env \<Rightarrow> pipeline \<times> outcome" where
  "process_reading cfg p d e =
     (if weight d \<le> 0 then (p, Skipped)
      else
        let b = add_reading (stability p) (weight d);
            p1 = p\<lparr>stability := b\<rparr>
        in case is_stable b (stability_threshold cfg) (stability_readings cfg) of
             Inl err \<Rightarrow> (p1, Failed err)
           | Inr False \<Rightarrow> (p1, Unstable)
           | Inr True \<Rightarrow>
               let stable_weight = get_stable_weight b in
               if is_duplicate b stable_weight (duplicate_timeout cfg) (now_check e)
               then (p1, Duplicate stable_weight)
               else
                 let up = (if unit_price d = 0
                           then (case plu_prices cfg (product_id d) of None \<Rightarrow> 0 | Some v \<Rightarrow> v)
                           else unit_price d);
                     total = py_round (stable_weight * up) 2;
                     reading = \<lparr>product_id = product_id d, weight = py_round stable_weight 3,
                                unit_price = up, total_price = total,
                                timestamp = now_stamp e\<rparr>;
                     b2 = mark_sent b stable_weight (now_mark e);
                     file = logger_log (log_file p) (log_ok e) reading
                 in case broadcast (clients p) (send e) of
                      (sent_to, Inl err) \<Rightarrow>
                        (p\<lparr>stability := b2, log_file := file\<rparr>, Emitted reading sent_to (Some err))
                    | (sent_to, Inr cs) \<Rightarrow>
                        (p\<lparr>stability := b2, log_file := file, clients := cs\<rparr>,
                         Emitted reading sent_to None))"

section \<open>\<^verbatim>\<open>ScaleMiddleware.scale_reader_loop\<close>\<close>

text \<open>
  \<^verbatim>\<open>serial_port.readline()\<close> returns bytes, returns nothing at the timeout, or raises
  \<^verbatim>\<open>SerialException\<close>. One turn of the loop is given whether \<^verbatim>\<open>connect()\<close> would
  succeed, what the read does, and the environment of \<^verbatim>\<open>process_reading\<close>.
\<close>

datatype read_result = Line bytes | Timeout | SerialException

record turn =
  connect_ok :: bool
  line :: read_result
  during :: env

record loop_state =
  reconnect_delay :: real
  port_open :: bool
  state :: pipeline

datatype effect = RetrySleep real | IdleSleep real | Processed outcome

definition max_delay :: real where
  "max_delay = 30"

definition initial_state :: loop_state where
  "initial_state =
     \<lparr>reconnect_delay = 1, port_open = False,
      state = \<lparr>stability = \<lparr>readings = [], last_sent_weight = None, last_sent_time = None\<rparr>,
               clients = [], log_file = []\<rparr>\<rparr>"

text \<open>
  \<^verbatim>\<open>SerialScaleReader.read_async\<close> with \<^verbatim>\<open>read_line\<close>: a read error closes the
  port; bytes are parsed.
\<close>

definition read_async :: "config \<Rightarrow> loop_state \<Rightarrow> read_result \<Rightarrow> loop_state \<times> frame option" where
  "read_async cfg s r =
     (if \<not> port_open s then (s, None)
      else case r of
        Line data \<Rightarrow> (s, if data = [] then None else parse (plu_prices cfg) data)
      | Timeout \<Rightarrow> (s, None)
      | SerialException \<Rightarrow> (s\<lparr>port_open := False\<rparr>, None))"

text \<open>
  One turn of the \<^verbatim>\<open>while\<close> loop: the new state, what the turn did, and the
  exception that ends the loop if there is one.
\<close>

definition loop_turn ::
  "config \<Rightarrow> loop_state \<Rightarrow> turn \<Rightarrow> loop_state \<times> effect list \<times> py_error option" where
  "loop_turn cfg s t =
     (if \<not> port_open s \<and> \<not> connect_ok t
      then (s\<lparr>reconnect_delay := min (reconnect_delay s * 2) max_delay\<rparr>,
            [RetrySleep (reconnect_delay s)], None)
      else
        let s1 = (if \<not> port_open s then s\<lparr>reconnect_delay := 1, port_open := True\<rparr> else s)
        in case read_async cfg s1 (line t) of
             (s2, None) \<Rightarrow> (s2, [IdleSleep (1 / 10)], None)
           | (s2, Some d) \<Rightarrow>
               (case process_reading cfg (state s2) d (during t) of
                  (p, out) \<Rightarrow>
                    (s2\<lparr>state := p\<rparr>, [Processed out],
                     case out of Failed err \<Rightarrow> Some err
                     | Emitted _ _ (Some err) \<Rightarrow> Some err
                     | _ \<Rightarrow> None)))"

text \<open>
  The loop runs one turn for each time it finds \<^verbatim>\<open>self.running\<close> true, and ends
  early when an exception leaves a turn.
\<close>

fun scale_reader_loop ::
  "config \<Rightarrow> loop_state \<Rightarrow> turn list \<Rightarrow> loop_state \<times> effect list \<times> py_error option" where
  "scale_reader_loop cfg s [] = (s, [], None)"
| "scale_reader_loop cfg s (t # ts) =
     (case loop_turn cfg s t of
        (s1, effs, Some err) \<Rightarrow> (s1, effs, Some err)
      | (s1, effs, None) \<Rightarrow>
          (case scale_reader_loop cfg s1 ts of (s2, effs2, x) \<Rightarrow> (s2, effs @ effs2, x)))"

section \<open>The vocabulary of the properties\<close>

text \<open>
  The match a pattern reports at the start of the input: the first one the matcher finds.
\<close>

definition re_first :: "regex \<Rightarrow> string \<Rightarrow> match option" where
  "re_first r s = (case r s of [] \<Rightarrow> None | m # _ \<Rightarrow> Some m)"

text \<open>
  The tokens of a frame: a product code of 4 to 6 digits, a decimal (digits, then
  optionally a point and digits), and a decimal with an optional sign.
\<close>

definition is_plu :: "string \<Rightarrow> bool" where
  "is_plu s = (4 \<le> length s \<and> length s \<le> 6 \<and> list_all is_digit s)"

definition is_decimal :: "string \<Rightarrow> bool" where
  "is_decimal s =
     (let ip = takeWhile is_digit s; r = dropWhile is_digit s
      in ip \<noteq> [] \<and> (case r of [] \<Rightarrow> True | c # r' \<Rightarrow> is_dot c \<and> list_all is_digit r'))"

definition is_signed_decimal :: "string \<Rightarrow> bool" where
  "is_signed_decimal s =
     (case s of [] \<Rightarrow> False | c # r \<Rightarrow> if is_sign c then is_decimal r else is_decimal s)"

text \<open>
  The input after a decimal token does not continue it: it is empty, or its first
  character is not a digit, and is a point only if the token has one already.
\<close>

definition token_ends :: "string \<Rightarrow> string \<Rightarrow> bool" where
  "token_ends t rest =
     (case rest of [] \<Rightarrow> True
      | c # _ \<Rightarrow> \<not> is_digit c \<and> (is_dot c \<longrightarrow> list_ex is_dot t))"

text \<open>
  The text of a Full-format frame, each token introduced by its tag.
\<close>

definition full_frame :: "string \<Rightarrow> string \<Rightarrow> string \<Rightarrow> string \<Rightarrow> string" where
  "full_frame plu w u t = CHR ''P'' # plu @ CHR ''W'' # w @ CHR ''U'' # u @ CHR ''T'' # t"

text \<open>
  The characters a Full-format frame is made of.
\<close>

definition frame_char :: "char \<Rightarrow> bool" where
  "frame_char c = (is_digit c \<or> is_dot c \<or> is_sign c \<or> c \<in> set ''PWUT'')"

text \<open>
  A pattern stops at a character: no match of it reaches across that character, so the
  matches on an input cut at the character are the matches on the part before it.
\<close>

definition stops_at :: "char \<Rightarrow> regex \<Rightarrow> bool" where
  "stops_at x r = (\<forall>s rest. r (s @ x # rest) = map (\<lambda>(g, q). (g, q @ x # rest)) (r s))"

text \<open>
  Every match of a pattern consumes a prefix of the input, and the prefix and the groups
  satisfy a property.
\<close>

definition yields :: "regex \<Rightarrow> (string \<Rightarrow> string list \<Rightarrow> bool) \<Rightarrow> bool" where
  "yields r Q = (\<forall>s g q. (g, q) \<in> set (r s) \<longrightarrow> (\<exists>t. s = t @ q \<and> Q t g))"


text \<open>
  What a call of \<^verbatim>\<open>process_reading\<close> reached: the settled weight, when the stability
  test passed (whether or not the duplicate check then suppressed it); the event handed to
  the sinks; the exception that left the call.
\<close>

definition settlement :: "outcome \<Rightarrow> real option" where
  "settlement out =
     (case out of Duplicate sw \<Rightarrow> Some sw | Emitted r _ _ \<Rightarrow> Some (weight r) | _ \<Rightarrow> None)"

definition event :: "outcome \<Rightarrow> ScaleReading option" where
  "event out = (case out of Emitted r _ _ \<Rightarrow> Some r | _ \<Rightarrow> None)"




text \<open>
  Concrete states and environments, for the examples: an environment in which every
  sink works and the clock stands at 0, a pipeline whose window holds two samples, a
  frame of a given weight, the environment at a given time, the pipeline after a first
  event at time 10, three turns of the loop, and two behaviours of the listeners.
\<close>

definition quiet_env :: env where
  "quiet_env = \<lparr>now_check = 0, now_stamp = [], now_mark = 0, log_ok = True, send = (\<lambda>c. Sent)\<rparr>"

definition two_samples :: pipeline where
  "two_samples =
     \<lparr>stability = \<lparr>readings = [2001 / 1000, 2002 / 1000], last_sent_weight = None,
                   last_sent_time = None\<rparr>,
      clients = [1, 2], log_file = []\<rparr>"

definition weight_frame :: "real \<Rightarrow> frame" where
  "weight_frame w = \<lparr>product_id = ''0002'', weight = w, unit_price = 0, total_price = 0\<rparr>"




definition fail_turn :: turn where
  "fail_turn = \<lparr>connect_ok = False, line = Timeout, during = quiet_env\<rparr>"

definition lost_turn :: turn where
  "lost_turn = \<lparr>connect_ok = True, line = SerialException, during = quiet_env\<rparr>"

definition open_state :: loop_state where
  "open_state = \<lparr>reconnect_delay = 8, port_open = True, state = two_samples\<rparr>"




section \<open>The parser\<close>

lemma re_first_rep:
  "re_first (rep P lo hi) s =
     (let n = length (takeWhile P s);
          m = (case hi of None \<Rightarrow> n | Some h \<Rightarrow> min h n)
      in if lo \<le> m then Some ([], drop m s) else None)"
  by (auto simp: re_first_def rep_def Let_def rev_map[symmetric] split: list.splits option.splits)

lemma re_first_seq:
  "re_first a s = Some (g1, r1) \<Longrightarrow> re_first b r1 = Some (g2, r2) \<Longrightarrow>
   re_first (seq a b) s = Some (g1 @ g2, r2)"
  by (auto simp: re_first_def seq_def split: list.splits)

lemma re_first_grp:
  "re_first a s = Some (g, r) \<Longrightarrow>
   re_first (grp a) s = Some (take (length s - length r) s # g, r)"
  by (auto simp: re_first_def grp_def split: list.splits)

lemma takeWhile_run:
  "list_all P ds \<Longrightarrow> (case rest of [] \<Rightarrow> True | c # _ \<Rightarrow> \<not> P c) \<Longrightarrow>
   takeWhile P (ds @ rest) = ds"
  by (induction ds) (auto simp: split: list.splits)

lemma digit_not_dot: "is_digit c \<Longrightarrow> \<not> is_dot c"
  by (auto simp: is_digit_def is_dot_def code_def)

lemma digit_not_sign: "is_digit c \<Longrightarrow> \<not> is_sign c"
  by (auto simp: is_digit_def is_sign_def code_def)

lemma digits_no_dot: "list_all is_digit ds \<Longrightarrow> \<not> list_ex is_dot ds"
  by (induction ds) (auto simp: digit_not_dot)

lemma is_decimalD:
  assumes "is_decimal t"
  obtains ip dp where "t = ip @ dp" "ip \<noteq> []" "list_all is_digit ip"
    "dp = [] \<or> (\<exists>fp. dp = CHR ''.'' # fp \<and> list_all is_digit fp)"
proof -
  let ?ip = "takeWhile is_digit t" and ?dp = "dropWhile is_digit t"
  have 1: "t = ?ip @ ?dp" by simp
  have 2: "?ip \<noteq> []" using assms by (simp add: is_decimal_def Let_def)
  have 3: "list_all is_digit ?ip" by (simp add: list_all_iff) (meson set_takeWhileD)
  have 4: "?dp = [] \<or> (\<exists>fp. ?dp = CHR ''.'' # fp \<and> list_all is_digit fp)"
    using assms by (auto simp: is_decimal_def Let_def is_dot_def split: list.splits)
  from that[OF 1 2 3 4] show thesis .
qed

lemma decimal_first:
  assumes "is_decimal t" and "token_ends t rest"
  shows "re_first decimal_re (t @ rest) = Some ([], rest)"
proof -
  from assms(1) obtain ip dp where t: "t = ip @ dp" and ip: "ip \<noteq> []" "list_all is_digit ip"
    and dp: "dp = [] \<or> (\<exists>fp. dp = CHR ''.'' # fp \<and> list_all is_digit fp)"
    by (rule is_decimalD)
  from dp show ?thesis
  proof
    assume e: "dp = []"
    with t assms(2) ip have r: "case rest of [] \<Rightarrow> True | c # _ \<Rightarrow> \<not> is_digit c \<and> \<not> is_dot c"
      by (auto simp: token_ends_def digits_no_dot split: list.splits)
    then have tw: "takeWhile is_digit (ip @ rest) = ip"
      by (intro takeWhile_run ip) (auto split: list.splits)
    have a: "re_first (re_plus is_digit) (t @ rest) = Some ([], rest)"
      using ip tw by (cases ip) (auto simp: re_plus_def re_first_rep t e Let_def)
    have b: "re_first (re_opt is_dot) rest = Some ([], rest)"
      using r by (auto simp: re_opt_def re_first_rep Let_def split: list.splits)
    have c: "re_first (re_star is_digit) rest = Some ([], rest)"
      using r by (auto simp: re_star_def re_first_rep Let_def split: list.splits)
    show ?thesis
      unfolding decimal_re_def using re_first_seq[OF a re_first_seq[OF b c]] by simp
  next
    assume "\<exists>fp. dp = CHR ''.'' # fp \<and> list_all is_digit fp"
    then obtain fp where e: "dp = CHR ''.'' # fp" and fp: "list_all is_digit fp" by blast
    have r: "case rest of [] \<Rightarrow> True | c # _ \<Rightarrow> \<not> is_digit c"
      using assms(2) by (auto simp: token_ends_def split: list.splits)
    have tw: "takeWhile is_digit (ip @ CHR ''.'' # fp @ rest) = ip"
      by (intro takeWhile_run ip) (simp add: is_digit_def code_def)
    have a: "re_first (re_plus is_digit) (t @ rest) = Some ([], CHR ''.'' # fp @ rest)"
      using ip tw by (cases ip) (auto simp: re_plus_def re_first_rep t e Let_def)
    have b: "re_first (re_opt is_dot) (CHR ''.'' # fp @ rest) = Some ([], fp @ rest)"
      by (auto simp: re_opt_def re_first_rep Let_def is_dot_def min_def)
    have tw2: "takeWhile is_digit (fp @ rest) = fp"
      by (intro takeWhile_run fp r)
    have c: "re_first (re_star is_digit) (fp @ rest) = Some ([], rest)"
      using tw2 by (auto simp: re_star_def re_first_rep Let_def)
    show ?thesis
      unfolding decimal_re_def using re_first_seq[OF a re_first_seq[OF b c]] by simp
  qed
qed

lemma signed_decimal_first:
  assumes "is_signed_decimal w" and "token_ends w rest"
  shows "re_first signed_decimal_re (w @ rest) = Some ([], rest)"
proof (cases w)
  case Nil
  with assms show ?thesis by (simp add: is_signed_decimal_def)
next
  case (Cons c r)
  show ?thesis
  proof (cases "is_sign c")
    case True
    with Cons assms(1) have d: "is_decimal r" by (simp add: is_signed_decimal_def)
    have te: "token_ends r rest"
      using assms(2) Cons True
      by (auto simp: token_ends_def is_sign_def is_dot_def split: list.splits)
    have a: "re_first (re_opt is_sign) (w @ rest) = Some ([], r @ rest)"
      using True Cons by (auto simp: re_opt_def re_first_rep Let_def min_def)
    show ?thesis
      unfolding signed_decimal_re_def using re_first_seq[OF a decimal_first[OF d te]] by simp
  next
    case False
    with Cons assms(1) have d: "is_decimal w" by (simp add: is_signed_decimal_def)
    have a: "re_first (re_opt is_sign) (w @ rest) = Some ([], w @ rest)"
      using False Cons by (auto simp: re_opt_def re_first_rep Let_def)
    show ?thesis
      unfolding signed_decimal_re_def using re_first_seq[OF a decimal_first[OF d assms(2)]] by simp
  qed
qed

lemma grp_token:
  "re_first a (t @ rest) = Some ([], rest) \<Longrightarrow> re_first (grp a) (t @ rest) = Some ([t], rest)"
  by (drule re_first_grp) simp

lemma lit_first: "re_first (re_lit c) (c # rest) = Some ([], rest)"
  by (simp add: re_lit_def re_first_rep Let_def min_def)

lemma plu_first:
  assumes "is_plu plu" and "case rest of [] \<Rightarrow> True | c # _ \<Rightarrow> \<not> is_digit c"
  shows "re_first (rep is_digit 4 (Some 6)) (plu @ rest) = Some ([], rest)"
proof -
  have "takeWhile is_digit (plu @ rest) = plu"
    using assms by (intro takeWhile_run) (auto simp: is_plu_def)
  then show ?thesis using assms(1) by (simp add: re_first_rep Let_def is_plu_def min_def)
qed

lemma U_ends: "token_ends w (CHR ''U'' # rest)" "token_ends w (CHR ''T'' # rest)"
  by (simp_all add: token_ends_def is_digit_def is_dot_def code_def)

lemma W_no_digit: "case CHR ''W'' # rest of [] \<Rightarrow> True | c # _ \<Rightarrow> \<not> is_digit c"
  by (simp add: is_digit_def code_def)

lemma full_first:
  assumes "is_plu plu" "is_signed_decimal w" "is_decimal u" "is_decimal t" "token_ends t rest"
  shows "re_first PATTERN_full
           (CHR ''P'' # plu @ CHR ''W'' # w @ CHR ''U'' # u @ CHR ''T'' # t @ rest)
         = Some ([plu, w, u, t], rest)"
proof -
  note g1 = grp_token[OF plu_first[OF assms(1) W_no_digit]]
  note g2 = grp_token[OF signed_decimal_first[OF assms(2) U_ends(1)]]
  note g3 = grp_token[OF decimal_first[OF assms(3) U_ends(2)]]
  note g4 = grp_token[OF decimal_first[OF assms(4) assms(5)]]
  show ?thesis
    unfolding PATTERN_full_def
    using re_first_seq[OF lit_first re_first_seq[OF g1 re_first_seq[OF lit_first
            re_first_seq[OF g2 re_first_seq[OF lit_first re_first_seq[OF g3
              re_first_seq[OF lit_first g4]]]]]]]
    by simp
qed

lemma search_first: "re_first r s = Some (g, q) \<Longrightarrow> re_search r s = Some g"
  by (cases s) (auto simp: re_first_def split: list.splits)

lemma search_None_Cons:
  "re_search r (c # cs) = None \<longleftrightarrow> r (c # cs) = [] \<and> re_search r cs = None"
  by (auto split: list.splits)

lemma takeWhile_stop: "\<not> P x \<Longrightarrow> takeWhile P (s @ x # rest) = takeWhile P s"
  by (induction s) auto

lemma stops_at_rep:
  assumes "\<not> P x"
  shows "stops_at x (rep P lo hi)"
proof -
  have "rep P lo hi (s @ x # rest) = map (\<lambda>(g, q). (g, q @ x # rest)) (rep P lo hi s)"
    for s rest
  proof -
    define m where
      "m = (case hi of None \<Rightarrow> length (takeWhile P s) | Some h \<Rightarrow> min h (length (takeWhile P s)))"
    have "length (takeWhile P s) \<le> length s" by (rule length_takeWhile_le)
    then have m: "m \<le> length s" by (auto simp: m_def split: option.splits)
    have tw: "takeWhile P (s @ x # rest) = takeWhile P s"
      using assms by (simp add: takeWhile_stop)
    have "rep P lo hi (s @ x # rest) = map (\<lambda>k. ([], drop k (s @ x # rest))) (rev [lo..<Suc m])"
      unfolding rep_def tw m_def Let_def ..
    also have "\<dots> = map (\<lambda>k. ([], drop k s @ x # rest)) (rev [lo..<Suc m])"
      using m by (intro map_cong) auto
    also have "\<dots> = map (\<lambda>(g, q). (g, q @ x # rest)) (rep P lo hi s)"
      unfolding rep_def m_def Let_def by (simp add: o_def)
    finally show ?thesis .
  qed
  then show ?thesis by (simp add: stops_at_def)
qed

lemma stops_at_seq: "stops_at x a \<Longrightarrow> stops_at x b \<Longrightarrow> stops_at x (seq a b)"
  by (auto simp: stops_at_def seq_def map_concat o_def split_def intro!: arg_cong[where f=concat])

lemma stops_at_grp: "stops_at x a \<Longrightarrow> stops_at x (grp a)"
  by (auto simp: stops_at_def grp_def o_def split_def)

lemma lit_Cons: "re_lit c (d # z) = (if d = c then [([], z)] else [])"
  by (auto simp: re_lit_def rep_def Let_def min_def)

lemma seq_lit_stops:
  assumes "stops_at c b"
  shows "seq (re_lit c) b ((d # s) @ c # rest)
       = map (\<lambda>(g, q). (g, q @ c # rest)) (seq (re_lit c) b (d # s))"
  using assms by (auto simp: seq_def lit_Cons stops_at_def o_def split_def)

lemma P_stops:
  "\<not> is_digit CHR ''P''" "\<not> is_dot CHR ''P''" "\<not> is_sign CHR ''P''"
  "CHR ''P'' \<noteq> CHR ''W''" "CHR ''P'' \<noteq> CHR ''U''" "CHR ''P'' \<noteq> CHR ''T''"
  by (simp_all add: is_digit_def is_dot_def is_sign_def code_def)

lemma full_stops:
  "PATTERN_full ((d # s) @ CHR ''P'' # rest)
   = map (\<lambda>(g, q). (g, q @ CHR ''P'' # rest)) (PATTERN_full (d # s))"
  unfolding PATTERN_full_def
  by (rule seq_lit_stops)
     (simp add: stops_at_seq stops_at_grp stops_at_rep P_stops re_lit_def re_opt_def re_star_def
        re_plus_def decimal_re_def signed_decimal_re_def)

lemma search_prefix:
  "re_search PATTERN_full pre = None \<Longrightarrow>
   re_search PATTERN_full (pre @ CHR ''P'' # rest) = re_search PATTERN_full (CHR ''P'' # rest)"
proof (induction pre)
  case Nil
  then show ?case by simp
next
  case (Cons d s)
  from Cons.prems have e: "PATTERN_full (d # s) = []" and n: "re_search PATTERN_full s = None"
    by (simp_all only: search_None_Cons)
  have "PATTERN_full ((d # s) @ CHR ''P'' # rest) = []"
    by (simp only: full_stops e list.map)
  then have "re_search PATTERN_full ((d # s) @ CHR ''P'' # rest)
           = re_search PATTERN_full (s @ CHR ''P'' # rest)"
    by simp
  with Cons.IH[OF n] show ?case by simp
qed

lemma search_None_dropWhile:
  "re_search r s = None \<Longrightarrow> re_search r (dropWhile Q s) = None"
  by (induction s) (auto simp: search_None_Cons simp del: re_search.simps)

lemma token_ends_prefix: "token_ends t (p @ q) \<Longrightarrow> token_ends t p"
  by (cases p) (auto simp: token_ends_def)

lemma token_ends_rstrip: "token_ends t b \<Longrightarrow> token_ends t (rev (dropWhile Q (rev b)))"
proof -
  assume a: "token_ends t b"
  have "rev b = takeWhile Q (rev b) @ dropWhile Q (rev b)" by simp
  then have "b = rev (dropWhile Q (rev b)) @ rev (takeWhile Q (rev b))"
    by (metis rev_append rev_rev_ident)
  with a show ?thesis by (metis token_ends_prefix)
qed

lemma strip_around:
  assumes "f \<noteq> []" "\<not> is_space (hd f)" "\<not> is_space (last f)"
  shows "strip (a @ f @ b) = dropWhile is_space a @ f @ rev (dropWhile is_space (rev b))"
proof -
  have 1: "dropWhile is_space (a @ f @ b) = dropWhile is_space a @ f @ b"
    using assms(1,2) by (cases f) (auto simp: dropWhile_append)
  have 2: "dropWhile is_space (rev b @ rev f @ rev (dropWhile is_space a))
         = dropWhile is_space (rev b) @ rev f @ rev (dropWhile is_space a)"
    using assms(1,3) by (cases f rule: rev_cases) (auto simp: dropWhile_append)
  show ?thesis by (simp add: strip_def 1 2)
qed

lemma yields_mono: "yields r Q \<Longrightarrow> (\<And>t g. Q t g \<Longrightarrow> Q' t g) \<Longrightarrow> yields r Q'"
  unfolding yields_def by blast

lemma yields_rep:
  "yields (rep P lo hi)
     (\<lambda>t g. g = [] \<and> list_all P t \<and> lo \<le> length t \<and>
             (case hi of None \<Rightarrow> True | Some h \<Rightarrow> length t \<le> h))"
  unfolding yields_def
proof (intro allI impI)
  fix s g q
  assume "(g, q) \<in> set (rep P lo hi s)"
  then obtain k where g: "g = []" and q: "q = drop k s" and lo: "lo \<le> k"
    and k: "k \<le> length (takeWhile P s)"
    and hi: "case hi of None \<Rightarrow> True | Some h \<Rightarrow> k \<le> h"
    by (auto simp: rep_def Let_def split: option.splits)
  have ks: "k \<le> length s" using k length_takeWhile_le[of P s] by simp
  have "take k s = take k (takeWhile P s @ dropWhile P s)" by simp
  also have "\<dots> = take k (takeWhile P s)" using k by (simp only: take_append) simp
  finally have "set (take k s) \<subseteq> set (takeWhile P s)" by (simp add: set_take_subset)
  then have "list_all P (take k s)" by (auto simp: list_all_iff dest: set_takeWhileD)
  moreover have "s = take k s @ q" by (simp add: q)
  moreover have "length (take k s) = k" using ks by simp
  ultimately show "\<exists>t. s = t @ q \<and> g = [] \<and> list_all P t \<and> lo \<le> length t \<and>
        (case hi of None \<Rightarrow> True | Some h \<Rightarrow> length t \<le> h)"
    using g lo hi by (intro exI[of _ "take k s"]) (auto split: option.splits)
qed

lemma yields_seq:
  assumes "yields a Qa" "yields b Qb"
  shows "yields (seq a b)
     (\<lambda>t g. \<exists>t1 t2 g1 g2. t = t1 @ t2 \<and> g = g1 @ g2 \<and> Qa t1 g1 \<and> Qb t2 g2)"
  unfolding yields_def
proof (intro allI impI)
  fix s g q
  assume "(g, q) \<in> set (seq a b s)"
  then obtain g1 r1 g2 where 1: "(g1, r1) \<in> set (a s)" and 2: "(g2, q) \<in> set (b r1)"
    and g: "g = g1 @ g2"
    by (auto simp: seq_def)
  from assms(1) 1 obtain t1 where t1: "s = t1 @ r1" "Qa t1 g1" unfolding yields_def by blast
  from assms(2) 2 obtain t2 where t2: "r1 = t2 @ q" "Qb t2 g2" unfolding yields_def by blast
  show "\<exists>t. s = t @ q \<and> (\<exists>t1 t2 g1 g2. t = t1 @ t2 \<and> g = g1 @ g2 \<and> Qa t1 g1 \<and> Qb t2 g2)"
    using t1 t2 g by (intro exI[of _ "t1 @ t2"]) auto
qed

lemma yields_grp:
  assumes "yields a Q"
  shows "yields (grp a) (\<lambda>t g. \<exists>g'. g = t # g' \<and> Q t g')"
  unfolding yields_def
proof (intro allI impI)
  fix s g q
  assume "(g, q) \<in> set (grp a s)"
  then obtain g' where 1: "(g', q) \<in> set (a s)" and g: "g = take (length s - length q) s # g'"
    by (auto simp: grp_def)
  from assms 1 obtain t where t: "s = t @ q" "Q t g'" unfolding yields_def by blast
  then show "\<exists>t. s = t @ q \<and> (\<exists>g'. g = t # g' \<and> Q t g')"
    using g by (intro exI[of _ t]) auto
qed

lemma dropWhile_run:
  "list_all P ds \<Longrightarrow> (case rest of [] \<Rightarrow> True | c # _ \<Rightarrow> \<not> P c) \<Longrightarrow>
   dropWhile P (ds @ rest) = rest"
  by (induction ds) (auto split: list.splits)

lemma is_decimalI:
  assumes "list_all is_digit t1" "t1 \<noteq> []" "list_all is_dot t2" "length t2 \<le> 1"
    "list_all is_digit t3"
  shows "is_decimal (t1 @ t2 @ t3)"
proof (cases t2)
  case Nil
  have all: "\<forall>x\<in>set (t1 @ t2 @ t3). is_digit x"
    using assms Nil by (auto simp: list_all_iff)
  have tw: "takeWhile is_digit (t1 @ t2 @ t3) = t1 @ t2 @ t3"
    using all by (simp only: takeWhile_eq_all_conv)
  have dw: "dropWhile is_digit (t1 @ t2 @ t3) = []"
    using all by (simp only: dropWhile_eq_Nil_conv)
  show ?thesis unfolding is_decimal_def Let_def tw dw using assms(2) by simp
next
  case (Cons d r)
  with assms(3,4) have d: "is_dot d" "r = []" by auto
  then have nd: "case d # t3 of [] \<Rightarrow> True | c # _ \<Rightarrow> \<not> is_digit c"
    using digit_not_dot by auto
  have "takeWhile is_digit (t1 @ d # t3) = t1" "dropWhile is_digit (t1 @ d # t3) = d # t3"
    using takeWhile_run[OF assms(1) nd] dropWhile_run[OF assms(1) nd] by simp_all
  then show ?thesis using assms(2,5) Cons d by (simp add: is_decimal_def)
qed

lemma decimal_hd_digit: "is_decimal t \<Longrightarrow> \<exists>c r. t = c # r \<and> is_digit c"
  by (cases t) (auto simp: is_decimal_def Let_def split: if_splits)

lemma yields_decimal: "yields decimal_re (\<lambda>t g. g = [] \<and> is_decimal t)"
  unfolding decimal_re_def re_plus_def re_opt_def re_star_def
  by (rule yields_mono[OF yields_seq[OF yields_rep yields_seq[OF yields_rep yields_rep]]])
     (auto intro: is_decimalI)

lemma yields_signed_decimal:
  "yields signed_decimal_re (\<lambda>t g. g = [] \<and> is_signed_decimal t)"
  unfolding signed_decimal_re_def re_opt_def
proof (rule yields_mono[OF yields_seq[OF yields_rep yields_decimal]])
  fix t g
  assume "\<exists>t1 t2 g1 g2. t = t1 @ t2 \<and> g = g1 @ g2 \<and>
     (g1 = [] \<and> list_all is_sign t1 \<and> 0 \<le> length t1 \<and>
       (case Some 1 of None \<Rightarrow> True | Some h \<Rightarrow> length t1 \<le> h)) \<and> g2 = [] \<and> is_decimal t2"
  then obtain t1 t2 where t: "t = t1 @ t2" and g: "g = []" and s: "list_all is_sign t1"
    and l: "length t1 \<le> 1" and d: "is_decimal t2"
    by auto
  from d obtain c r where c: "t2 = c # r" "is_digit c" using decimal_hd_digit by blast
  have "is_signed_decimal t"
  proof (cases t1)
    case Nil
    then show ?thesis using t c d by (simp add: is_signed_decimal_def digit_not_sign)
  next
    case (Cons x xs)
    with l s have "xs = []" "is_sign x" by auto
    then show ?thesis using t Cons d by (simp add: is_signed_decimal_def)
  qed
  with g show "g = [] \<and> is_signed_decimal t" by simp
qed

lemma yields_plu: "yields (rep is_digit 4 (Some 6)) (\<lambda>t g. g = [] \<and> is_plu t)"
  by (rule yields_mono[OF yields_rep]) (auto simp: is_plu_def)

lemma yields_lit: "yields (re_lit c) (\<lambda>t g. g = [])"
  unfolding re_lit_def by (rule yields_mono[OF yields_rep]) auto

lemma yields_any: "yields (rep P lo hi) (\<lambda>t g. g = [])"
  by (rule yields_mono[OF yields_rep]) auto

lemma yields_full:
  "yields PATTERN_full (\<lambda>s g. \<exists>plu w u t. g = [plu, w, u, t] \<and> is_plu plu \<and>
      is_signed_decimal w \<and> is_decimal u \<and> is_decimal t)"
  unfolding PATTERN_full_def
  by (rule yields_mono[OF yields_seq[OF yields_lit yields_seq[OF yields_grp[OF yields_plu]
       yields_seq[OF yields_lit yields_seq[OF yields_grp[OF yields_signed_decimal]
       yields_seq[OF yields_lit yields_seq[OF yields_grp[OF yields_decimal]
       yields_seq[OF yields_lit yields_grp[OF yields_decimal]]]]]]]]])
     auto

lemma yields_plu_weight:
  "yields PATTERN_plu_weight (\<lambda>s g. \<exists>plu w. g = [plu, w] \<and> is_plu plu \<and> is_signed_decimal w)"
  unfolding PATTERN_plu_weight_def
  by (rule yields_mono[OF yields_seq[OF yields_lit yields_seq[OF yields_grp[OF yields_plu]
       yields_seq[OF yields_lit yields_grp[OF yields_signed_decimal]]]]])
     auto

lemma yields_weight_only:
  "yields PATTERN_weight_only (\<lambda>s g. \<exists>w. g = [w] \<and> is_signed_decimal w)"
  unfolding PATTERN_weight_only_def
  by (rule yields_mono[OF yields_seq[OF yields_lit yields_grp[OF yields_signed_decimal]]]) auto

lemma yields_simple:
  "yields PATTERN_simple (\<lambda>s g. \<exists>w. g = [w] \<and> is_decimal w)"
  unfolding PATTERN_simple_def re_star_def re_cls_def
  by (rule yields_mono[OF yields_seq[OF yields_grp[OF yields_decimal]
       yields_seq[OF yields_any yields_seq[OF yields_any yields_any]]]]) auto

lemma search_yields:
  "yields r Q \<Longrightarrow> re_search r s = Some g \<Longrightarrow> \<exists>t. Q t g"
proof (induction s)
  case Nil
  then show ?case unfolding yields_def by (auto split: list.splits) (metis list.set_intros(1))
next
  case (Cons c cs)
  show ?case
  proof (cases "r (c # cs)")
    case Nil
    with Cons show ?thesis by simp
  next
    case (Cons m ms)
    obtain g' q where m: "m = (g', q)" by (cases m)
    with Cons Cons.prems(2) have "g' = g" by simp
    with Cons m have "(g, q) \<in> set (r (c # cs))" by simp
    with Cons.prems(1) show ?thesis unfolding yields_def by blast
  qed
qed

lemma py_float_decimal: "is_decimal t \<Longrightarrow> \<exists>v. py_float t = Inr v"
  by (cases t) (auto simp: py_float_def is_decimal_def Let_def digit_not_sign split: list.splits if_splits)

lemma py_float_signed: "is_signed_decimal w \<Longrightarrow> \<exists>v. py_float w = Inr v"
proof (cases w)
  case Nil
  assume "is_signed_decimal w"
  with Nil show ?thesis by (simp add: is_signed_decimal_def)
next
  case (Cons c r)
  assume a: "is_signed_decimal w"
  show ?thesis
  proof (cases "is_sign c")
    case True
    with a Cons have "is_decimal r" by (simp add: is_signed_decimal_def)
    then show ?thesis using True Cons
      by (auto simp: py_float_def is_decimal_def Let_def split: list.splits)
  next
    case False
    with a Cons have "is_decimal w" by (simp add: is_signed_decimal_def)
    then show ?thesis by (rule py_float_decimal)
  qed
qed

lemma parse_full_ok:
  assumes "is_signed_decimal w" "is_decimal u" "is_decimal t"
  shows "\<exists>wv uv tv. py_float w = Inr wv \<and> py_float u = Inr uv \<and> py_float t = Inr tv \<and>
     parse_full [plu, w, u, t]
       = Inr \<lparr>product_id = plu, weight = wv, unit_price = uv, total_price = tv\<rparr>"
  using py_float_signed[OF assms(1)] py_float_decimal[OF assms(2)] py_float_decimal[OF assms(3)]
  by (auto simp: parse_full_def)

lemma parse_body_total: "\<exists>r. parse_body prices data = Inr r"
proof -
  define tx where "tx = strip (decode_ascii_ignore data)"
  have full: "\<exists>f. parse_full gs = Inr f" if "re_search PATTERN_full tx = Some gs" for gs
    using search_yields[OF yields_full that] parse_full_ok by (metis)
  have pw: "\<exists>f. parse_plu_weight prices gs = Inr f"
    if "re_search PATTERN_plu_weight tx = Some gs" for gs
    using search_yields[OF yields_plu_weight that] py_float_signed
    by (fastforce simp: parse_plu_weight_def Let_def)
  have wo: "\<exists>f. parse_weight gs = Inr f" if "re_search PATTERN_weight_only tx = Some gs" for gs
    using search_yields[OF yields_weight_only that] py_float_signed
    by (fastforce simp: parse_weight_def)
  have si: "\<exists>f. parse_weight gs = Inr f" if "re_search PATTERN_simple tx = Some gs" for gs
    using search_yields[OF yields_simple that] py_float_decimal
    by (fastforce simp: parse_weight_def)
  show ?thesis
    unfolding parse_body_def tx_def[symmetric] Let_def
    using full pw wo si by (fastforce simp: lift_frame_def split: option.splits)
qed

lemma frame_char_ascii: "frame_char c \<Longrightarrow> code c < 128"
  by (auto simp: frame_char_def is_digit_def is_dot_def is_sign_def code_def)

lemma frame_char_not_space: "frame_char c \<Longrightarrow> \<not> is_space c"
  by (auto simp: frame_char_def is_digit_def is_dot_def is_sign_def is_space_def code_def)

lemma decimal_chars: "is_decimal t \<Longrightarrow> list_all frame_char t"
  by (erule is_decimalD) (auto simp: list_all_iff frame_char_def is_dot_def)

lemma signed_decimal_chars: "is_signed_decimal w \<Longrightarrow> list_all frame_char w"
  by (cases w) (auto simp: is_signed_decimal_def frame_char_def dest: decimal_chars split: if_splits)

lemma plu_chars: "is_plu p \<Longrightarrow> list_all frame_char p"
  by (auto simp: is_plu_def list_all_iff frame_char_def)

lemma full_frame_chars:
  assumes "is_plu plu" "is_signed_decimal w" "is_decimal u" "is_decimal t"
  shows "list_all frame_char (full_frame plu w u t)"
  using plu_chars[OF assms(1)] signed_decimal_chars[OF assms(2)] decimal_chars[OF assms(3)]
    decimal_chars[OF assms(4)]
  by (simp add: full_frame_def frame_char_def)

lemma decode_around:
  assumes "list_all frame_char f"
  shows "decode_ascii_ignore (pre @ f @ post)
       = decode_ascii_ignore pre @ f @ decode_ascii_ignore post"
proof -
  have "filter (\<lambda>c. code c < 128) f = f"
    using assms by (auto simp: list_all_iff frame_char_ascii)
  then show ?thesis by (simp add: decode_ascii_ignore_def)
qed

lemma search_full_frame:
  assumes "is_plu plu" "is_signed_decimal w" "is_decimal u" "is_decimal t"
    and pre: "re_search PATTERN_full (decode_ascii_ignore pre) = None"
    and post: "token_ends t (decode_ascii_ignore post)"
  shows "strip (decode_ascii_ignore (pre @ full_frame plu w u t @ post)) \<noteq> [] \<and>
    re_search PATTERN_full (strip (decode_ascii_ignore (pre @ full_frame plu w u t @ post)))
      = Some [plu, w, u, t]"
proof -
  let ?f = "full_frame plu w u t"
  let ?a = "dropWhile is_space (decode_ascii_ignore pre)"
  let ?b = "rev (dropWhile is_space (rev (decode_ascii_ignore post)))"
  have ch: "list_all frame_char ?f" by (rule full_frame_chars[OF assms(1-4)])
  have ne: "?f \<noteq> []" by (simp add: full_frame_def)
  have "hd ?f \<in> set ?f" "last ?f \<in> set ?f" using ne by simp_all
  then have sp: "\<not> is_space (hd ?f)" "\<not> is_space (last ?f)"
    using ch by (auto simp: list_all_iff frame_char_not_space)
  have tx: "strip (decode_ascii_ignore (pre @ ?f @ post)) = ?a @ ?f @ ?b"
    by (simp only: decode_around[OF ch] strip_around[OF ne sp])
  have a: "re_search PATTERN_full ?a = None" by (rule search_None_dropWhile[OF pre])
  have b: "token_ends t ?b" by (rule token_ends_rstrip[OF post])
  have "re_search PATTERN_full (?a @ ?f @ ?b)
      = re_search PATTERN_full (CHR ''P'' # plu @ CHR ''W'' # w @ CHR ''U'' # u @ CHR ''T'' # t @ ?b)"
    using search_prefix[OF a] by (simp add: full_frame_def)
  also have "\<dots> = Some [plu, w, u, t]"
    by (rule search_first[OF full_first[OF assms(1-4) b]])
  finally show ?thesis using ne by (simp add: tx)
qed

text \<open>
  Claim C1. A Full-format frame is the text \<open>P plu W w U u T t\<close> with \<open>plu\<close> of 4 to 6
  digits, \<open>w\<close> a signed decimal and \<open>u\<close>, \<open>t\<close> decimals. Whatever bytes stand before and
  after it in the chunk, as long as the frame is the substring the search matches (the
  bytes before it hold no match of the Full pattern, and the bytes after it do not
  continue the total-price token), \<open>parse\<close> returns exactly its four fields: the product
  code as written and \<^verbatim>\<open>float\<close> of the three number tokens. Bytes above 127 and
  whitespace at the ends of the chunk are garbage like any other. In particular the text
  \<^verbatim>\<open>P0002W+002.500U1200.00T3000.00\<close> decodes to product code 0002, weight 2.5, unit
  price 1200.0 and total price 3000.0.
\<close>

theorem decode_full_frame:
  assumes "is_plu plu" "is_signed_decimal w" "is_decimal u" "is_decimal t"
    and "re_search PATTERN_full (decode_ascii_ignore pre) = None"
    and "token_ends t (decode_ascii_ignore post)"
  shows "(\<exists>wv uv tv. py_float w = Inr wv \<and> py_float u = Inr uv \<and> py_float t = Inr tv \<and>
            parse prices (pre @ full_frame plu w u t @ post)
              = Some \<lparr>product_id = plu, weight = wv, unit_price = uv, total_price = tv\<rparr>) \<and>
         parse prices ''P0002W+002.500U1200.00T3000.00''
              = Some \<lparr>product_id = ''0002'', weight = 5 / 2, unit_price = 1200,
                      total_price = 3000\<rparr>"
proof
  from parse_full_ok[OF assms(2-4)] obtain wv uv tv where
    v: "py_float w = Inr wv" "py_float u = Inr uv" "py_float t = Inr tv" and
    p: "parse_full [plu, w, u, t]
       = Inr \<lparr>product_id = plu, weight = wv, unit_price = uv, total_price = tv\<rparr>"
    by blast
  have "parse prices (pre @ full_frame plu w u t @ post)
      = Some \<lparr>product_id = plu, weight = wv, unit_price = uv, total_price = tv\<rparr>"
    using search_full_frame[OF assms] p by (simp add: parse_def parse_body_def lift_frame_def)
  with v show "\<exists>wv uv tv. py_float w = Inr wv \<and> py_float u = Inr uv \<and> py_float t = Inr tv \<and>
            parse prices (pre @ full_frame plu w u t @ post)
              = Some \<lparr>product_id = plu, weight = wv, unit_price = uv, total_price = tv\<rparr>"
    by blast
next
  have tok: "is_plu ''0002''" "is_signed_decimal ''+002.500''" "is_decimal ''1200.00''"
    "is_decimal ''3000.00''"
    by (simp_all add: is_plu_def is_signed_decimal_def is_decimal_def is_digit_def is_dot_def
        is_sign_def code_def)
  have hy: "re_search PATTERN_full (decode_ascii_ignore []) = None"
    "token_ends ''3000.00'' (decode_ascii_ignore [])"
    by (simp_all add: decode_ascii_ignore_def token_ends_def PATTERN_full_def seq_def re_lit_def
        rep_def)
  have fl: "py_float ''+002.500'' = Inr (5 / 2)" "py_float ''1200.00'' = Inr 1200"
    "py_float ''3000.00'' = Inr 3000"
    by (simp_all add: py_float_def is_digit_def is_dot_def is_sign_def code_def)
  have "parse prices ([] @ full_frame ''0002'' ''+002.500'' ''1200.00'' ''3000.00'' @ [])
      = Some \<lparr>product_id = ''0002'', weight = 5 / 2, unit_price = 1200, total_price = 3000\<rparr>"
    using search_full_frame[OF tok hy] fl
    by (simp add: parse_def parse_body_def lift_frame_def parse_full_def)
  then show "parse prices ''P0002W+002.500U1200.00T3000.00''
              = Some \<lparr>product_id = ''0002'', weight = 5 / 2, unit_price = 1200,
                      total_price = 3000\<rparr>"
    by (simp add: full_frame_def)
qed

text \<open>
  The frame of the scenario between a start-of-text byte, an invalid byte and the letters
  \<open>P1\<close> in front, and an end-of-text byte and a line end behind.
\<close>

theorem decode_full_frame_witness:
  "is_plu ''0002'' \<and> is_signed_decimal ''+002.500'' \<and> is_decimal ''1200.00'' \<and>
   is_decimal ''3000.00'' \<and>
   re_search PATTERN_full (decode_ascii_ignore [CHR 0x02, CHR 0xFF, CHR ''P'', CHR ''1'']) = None \<and>
   token_ends ''3000.00'' (decode_ascii_ignore [CHR 0x03, CHR 0x0D, CHR 0x0A]) \<and>
   parse Map.empty
     ([CHR 0x02, CHR 0xFF, CHR ''P'', CHR ''1''] @
      full_frame ''0002'' ''+002.500'' ''1200.00'' ''3000.00'' @ [CHR 0x03, CHR 0x0D, CHR 0x0A])
     = Some \<lparr>product_id = ''0002'', weight = 5 / 2, unit_price = 1200, total_price = 3000\<rparr>"
proof -
  have tok: "is_plu ''0002''" "is_signed_decimal ''+002.500''" "is_decimal ''1200.00''"
    "is_decimal ''3000.00''"
    by (simp_all add: is_plu_def is_signed_decimal_def is_decimal_def is_digit_def is_dot_def
        is_sign_def code_def)
  have pre: "re_search PATTERN_full (decode_ascii_ignore [CHR 0x02, CHR 0xFF, CHR ''P'', CHR ''1''])
      = None"
    by code_simp
  have post: "token_ends ''3000.00'' (decode_ascii_ignore [CHR 0x03, CHR 0x0D, CHR 0x0A])"
    by (simp add: decode_ascii_ignore_def token_ends_def is_digit_def is_dot_def code_def)
  have fl: "py_float ''+002.500'' = Inr (5 / 2)" "py_float ''1200.00'' = Inr 1200"
    "py_float ''3000.00'' = Inr 3000"
    by (simp_all add: py_float_def is_digit_def is_dot_def is_sign_def code_def)
  from decode_full_frame[OF tok pre post, of Map.empty] fl tok pre post
  show ?thesis by auto
qed

text \<open>
  Claim C6. \<open>parse\<close> never raises: the body of its \<^verbatim>\<open>try\<close> block returns a value on
  every chunk of bytes (so the \<^verbatim>\<open>except\<close> clause, which would turn an exception into
  \<^verbatim>\<open>None\<close>, is never needed). Bytes that are not ASCII are discarded: the result is
  that for the chunk without them. A chunk that decodes to an empty or whitespace-only
  text gives \<^verbatim>\<open>None\<close>, and so does a text in which none of the four patterns has a
  match.
\<close>

theorem parse_total:
  "(\<exists>r. parse_body prices data = Inr r) \<and>
   parse prices data = parse prices (filter (\<lambda>c. code c < 128) data) \<and>
   (strip (decode_ascii_ignore data) = [] \<longrightarrow> parse prices data = None) \<and>
   (re_search PATTERN_full (strip (decode_ascii_ignore data)) = None \<and>
    re_search PATTERN_plu_weight (strip (decode_ascii_ignore data)) = None \<and>
    re_search PATTERN_weight_only (strip (decode_ascii_ignore data)) = None \<and>
    re_search PATTERN_simple (strip (decode_ascii_ignore data)) = None
    \<longrightarrow> parse prices data = None)"
proof -
  have 1: "\<exists>r. parse_body prices data = Inr r" by (rule parse_body_total)
  have "decode_ascii_ignore (filter (\<lambda>c. code c < 128) data) = decode_ascii_ignore data"
    by (simp add: decode_ascii_ignore_def)
  then have 2: "parse prices data = parse prices (filter (\<lambda>c. code c < 128) data)"
    by (simp add: parse_def parse_body_def)
  have 3: "strip (decode_ascii_ignore data) = [] \<Longrightarrow> parse prices data = None"
    by (simp add: parse_def parse_body_def Let_def)
  have 4: "parse prices data = None"
    if "re_search PATTERN_full (strip (decode_ascii_ignore data)) = None"
      "re_search PATTERN_plu_weight (strip (decode_ascii_ignore data)) = None"
      "re_search PATTERN_weight_only (strip (decode_ascii_ignore data)) = None"
      "re_search PATTERN_simple (strip (decode_ascii_ignore data)) = None"
    using that by (simp add: parse_def parse_body_def Let_def)
  from 1 2 3 4 show ?thesis by blast
qed

text \<open>
  A chunk of an invalid byte and whitespace, and a text that none of the patterns matches.
\<close>

theorem parse_total_witness:
  "strip (decode_ascii_ignore [CHR 0xFF, CHR '' '', CHR 0x0A]) = [] \<and>
   parse Map.empty [CHR 0xFF, CHR '' '', CHR 0x0A] = None \<and>
   re_search PATTERN_full (strip (decode_ascii_ignore ''P12W kg'')) = None \<and>
   re_search PATTERN_plu_weight (strip (decode_ascii_ignore ''P12W kg'')) = None \<and>
   re_search PATTERN_weight_only (strip (decode_ascii_ignore ''P12W kg'')) = None \<and>
   re_search PATTERN_simple (strip (decode_ascii_ignore ''P12W kg'')) = None \<and>
   parse Map.empty ''P12W kg'' = None"
proof -
  have e: "strip (decode_ascii_ignore [CHR 0xFF, CHR '' '', CHR 0x0A]) = []"
    by code_simp
  have n: "re_search PATTERN_full (strip (decode_ascii_ignore ''P12W kg'')) = None"
    "re_search PATTERN_plu_weight (strip (decode_ascii_ignore ''P12W kg'')) = None"
    "re_search PATTERN_weight_only (strip (decode_ascii_ignore ''P12W kg'')) = None"
    "re_search PATTERN_simple (strip (decode_ascii_ignore ''P12W kg'')) = None"
    by code_simp+
  from parse_total[of Map.empty "[CHR 0xFF, CHR '' '', CHR 0x0A]"]
    parse_total[of Map.empty "''P12W kg''"] e n
  show ?thesis by blast
qed

section \<open>The stability filter\<close>








lemma round_half_even_of_int: "round_half_even (of_int k) = k"
  by (simp add: round_half_even_def)

lemma py_round_idem: "py_round (py_round x n) n = py_round x n"
  by (simp add: py_round_def round_half_even_of_int)


lemma process_stable:
  assumes "0 < weight d"
    and "is_stable (add_reading (stability p) (weight d)) (stability_threshold cfg)
           (stability_readings cfg) = Inr True"
  shows "process_reading cfg p d e =
    (let b = add_reading (stability p) (weight d); sw = get_stable_weight b in
     if is_duplicate b sw (duplicate_timeout cfg) (now_check e)
     then (p\<lparr>stability := b\<rparr>, Duplicate sw)
     else
       let up = (if unit_price d = 0
                 then (case plu_prices cfg (product_id d) of None \<Rightarrow> 0 | Some v \<Rightarrow> v)
                 else unit_price d);
           reading = \<lparr>product_id = product_id d, weight = py_round sw 3, unit_price = up,
                      total_price = py_round (sw * up) 2, timestamp = now_stamp e\<rparr>;
           b2 = mark_sent b sw (now_mark e);
           file = logger_log (log_file p) (log_ok e) reading
       in case broadcast (clients p) (send e) of
            (sent_to, Inl err) \<Rightarrow>
              (p\<lparr>stability := b2, log_file := file\<rparr>, Emitted reading sent_to (Some err))
          | (sent_to, Inr cs) \<Rightarrow>
              (p\<lparr>stability := b2, log_file := file, clients := cs\<rparr>,
               Emitted reading sent_to None))"
  using assms by (simp add: process_reading_def Let_def)







lemma get_stable_weight_rounded: "py_round (get_stable_weight b) 3 = get_stable_weight b"
  by (simp add: get_stable_weight_def py_round_idem)

lemma settlement_stable:
  assumes "0 < weight d"
    and "is_stable (add_reading (stability p) (weight d)) (stability_threshold cfg)
           (stability_readings cfg) = Inr True"
  shows "settlement (snd (process_reading cfg p d e))
       = Some (get_stable_weight (add_reading (stability p) (weight d)))"
  by (simp add: process_stable[OF assms] Let_def settlement_def get_stable_weight_rounded
      split: prod.splits sum.splits)




text \<open>
  Claim C5, as the code has it. A sample \<open>w \<le> 0\<close> produces no event, whatever the
  window holds, and the state is left as it was: the check comes before
  \<^verbatim>\<open>add_reading\<close>, so the sample is not appended to the window.
\<close>

theorem nonpositive_rejected:
  assumes "weight d \<le> 0"
  shows "process_reading cfg p d e = (p, Skipped) \<and> event (snd (process_reading cfg p d e)) = None"
  using assms by (simp add: process_reading_def event_def)

text \<open>
  A sample of weight 0 on a window of two samples.
\<close>

theorem nonpositive_rejected_witness:
  "weight (weight_frame 0) \<le> 0 \<and>
   process_reading DEFAULT_CONFIG two_samples (weight_frame 0) quiet_env = (two_samples, Skipped)"
proof -
  have h: "weight (weight_frame 0) \<le> 0" by (simp add: weight_frame_def)
  from nonpositive_rejected[OF h, of DEFAULT_CONFIG two_samples quiet_env] h
  show ?thesis by simp
qed

text \<open>
  Against the claim as stated (the sample is appended before it is rejected): after the
  sample 0 the window still holds the two samples it held, not three.
\<close>

theorem nonpositive_not_appended:
  "readings (stability (fst (process_reading DEFAULT_CONFIG two_samples (weight_frame 0) quiet_env)))
     = [2001 / 1000, 2002 / 1000] \<and>
   readings (add_reading (stability two_samples) (weight (weight_frame 0)))
     = [2001 / 1000, 2002 / 1000, 0] \<and>
   readings (stability (fst (process_reading DEFAULT_CONFIG two_samples (weight_frame 0) quiet_env)))
     \<noteq> readings (add_reading (stability two_samples) (weight (weight_frame 0)))"
  by (simp add: process_reading_def weight_frame_def two_samples_def add_reading_def Let_def)




text \<open>
  Where the window holds three samples or more, the settled weight is the arithmetic mean
  of the last three, rounded to 3 decimals.
\<close>

lemma settled_weight_mean_of_three:
  assumes "3 \<le> length (readings b)"
  shows "get_stable_weight b
       = py_round (sum_list (drop (length (readings b) - 3) (readings b))
                   / real (length (drop (length (readings b) - 3) (readings b)))) 3"
  using assms by (simp add: get_stable_weight_def last_n_def)

text \<open>
  Claim C3 at a window of one sample: with a required count of 1 the first sample 3.0
  passes the stability test, and the settled weight reported is 1.0, a third of the
  sample, while the mean of the samples in the window is 3.0.
\<close>

theorem single_sample_settles_to_third:
  "settlement (snd (process_reading (DEFAULT_CONFIG\<lparr>stability_readings := 1\<rparr>)
      (state initial_state) (weight_frame 3) quiet_env)) = Some 1 \<and>
   readings (add_reading (stability (state initial_state)) (weight (weight_frame 3))) = [3] \<and>
   sum_list [3 :: real] / real (length [3 :: real]) = 3"
proof -
  have pos: "0 < weight (weight_frame 3)" by (simp add: weight_frame_def)
  have st: "is_stable (add_reading (stability (state initial_state)) (weight (weight_frame 3)))
      (stability_threshold (DEFAULT_CONFIG\<lparr>stability_readings := 1\<rparr>))
      (stability_readings (DEFAULT_CONFIG\<lparr>stability_readings := 1\<rparr>)) = Inr True"
    by (simp add: is_stable_def add_reading_def initial_state_def weight_frame_def last_n_def
        py_max_def py_min_def DEFAULT_CONFIG_def Let_def)
  have g: "get_stable_weight (add_reading (stability (state initial_state)) (weight (weight_frame 3)))
      = 1"
    by (simp add: get_stable_weight_def add_reading_def initial_state_def weight_frame_def
        last_n_def py_round_def round_half_even_def Let_def)
  show ?thesis
    using settlement_stable[OF pos st, of quiet_env] g
    by (simp add: add_reading_def initial_state_def weight_frame_def Let_def)
qed

lemma round_half_even_le_half: "of_int (round_half_even y) \<le> y + 1 / 2"
  unfolding round_half_even_def Let_def by (auto simp: not_less) linarith+

lemma round_half_even_le_int: "y \<le> of_int n \<Longrightarrow> round_half_even y \<le> n"
proof -
  assume a: "y \<le> of_int n"
  show ?thesis
  proof (cases "y = of_int n")
    case True
    then show ?thesis by (simp add: round_half_even_of_int)
  next
    case False
    with a have "y < of_int n" by simp
    then have "\<lfloor>y\<rfloor> < n" by (simp add: floor_less_iff)
    then have "\<lfloor>y\<rfloor> + 1 \<le> n" by simp
    then show ?thesis unfolding round_half_even_def Let_def by auto
  qed
qed

lemma py_round3_below_mean:
  assumes "0 < s" and "k = 1 \<or> k = 2" and "1 / 1000 < s / real k"
  shows "py_round (s / 3) 3 < s / real k"
proof (cases "3 / 1000 < s")
  case True
  have "py_round (s / 3) 3 \<le> (s / 3 * 1000 + 1 / 2) / 1000"
    unfolding py_round_def using round_half_even_le_half[of "s / 3 * 10 ^ 3"]
    by (simp add: divide_right_mono)
  also have "\<dots> < s / 2" using True by simp
  also have "\<dots> \<le> s / real k" using assms(1,2) by auto
  finally show ?thesis .
next
  case False
  then have "s / 3 * 10 ^ 3 \<le> of_int 1" by simp
  then have "round_half_even (s / 3 * 10 ^ 3) \<le> 1" by (rule round_half_even_le_int)
  then have "real_of_int (round_half_even (s / 3 * 10 ^ 3)) \<le> 1" by simp
  then have "py_round (s / 3) 3 \<le> 1 / 1000"
    unfolding py_round_def by (simp add: divide_right_mono)
  also note assms(3)
  finally show ?thesis .
qed

lemma last_n_short: "length xs \<le> nat n \<Longrightarrow> 0 < n \<Longrightarrow> last_n n xs = xs"
  by (simp add: last_n_def)

text \<open>
  Claim C10, as the code has it. With \<open>k\<close> samples in the window, \<open>0 < k < 3\<close>, the
  settled weight is the sum of the samples divided by 3 and rounded to 3 decimals. For
  positive samples, which are all the window ever holds, the quotient before rounding is
  smaller than the mean of the samples, and the settled weight itself is smaller than
  the mean whenever the mean is above 0.001.
\<close>

theorem settled_weight_short_window:
  assumes "0 < length (readings b)" and "length (readings b) < 3"
  shows "get_stable_weight b = py_round (sum_list (readings b) / 3) 3 \<and>
         (list_all (\<lambda>x. 0 < x) (readings b) \<longrightarrow>
            sum_list (readings b) / 3 < sum_list (readings b) / real (length (readings b))) \<and>
         (list_all (\<lambda>x. 0 < x) (readings b) \<and>
            1 / 1000 < sum_list (readings b) / real (length (readings b)) \<longrightarrow>
            get_stable_weight b < sum_list (readings b) / real (length (readings b)))"
proof -
  let ?rs = "readings b"
  have g: "get_stable_weight b = py_round (sum_list ?rs / 3) 3"
    using assms by (simp add: get_stable_weight_def last_n_short)
  have k: "length ?rs = 1 \<or> length ?rs = 2" using assms by linarith
  have pos: "0 < sum_list ?rs" if "list_all (\<lambda>x. 0 < x) ?rs"
  proof -
    from assms(1) obtain x xs where c: "?rs = x # xs" by (cases ?rs) auto
    with that have "0 < x" "\<forall>y\<in>set xs. 0 \<le> y" by (auto simp: list_all_iff intro: less_imp_le)
    then have "0 < x + sum_list xs" by (simp add: add_pos_nonneg sum_list_nonneg)
    with c show ?thesis by simp
  qed
  have lt: "sum_list ?rs / 3 < sum_list ?rs / real (length ?rs)" if "list_all (\<lambda>x. 0 < x) ?rs"
    using pos[OF that] k by auto
  have r: "get_stable_weight b < sum_list ?rs / real (length ?rs)"
    if "list_all (\<lambda>x. 0 < x) ?rs" "1 / 1000 < sum_list ?rs / real (length ?rs)"
    unfolding g by (rule py_round3_below_mean[OF pos[OF that(1)] k that(2)])
  show ?thesis using g lt r by blast
qed

text \<open>
  A window of the one sample 3.0.
\<close>

theorem settled_weight_short_window_witness:
  "0 < length [3 :: real] \<and> length [3 :: real] < 3 \<and>
   get_stable_weight \<lparr>readings = [3], last_sent_weight = None, last_sent_time = None\<rparr> = 1 \<and>
   get_stable_weight \<lparr>readings = [3], last_sent_weight = None, last_sent_time = None\<rparr> < 3 / 1"
  using settled_weight_short_window
    [of "\<lparr>readings = [3], last_sent_weight = None, last_sent_time = None\<rparr>"]
  by (simp add: py_round_def round_half_even_def)

text \<open>
  Against the last part of the claim as stated (the settled weight is smaller than the
  mean of the samples present): two samples of 0.0008 pass the stability test with a
  required count of 2, their mean is 0.0008, and the settled weight is 0.001, the
  quotient 0.000533 rounded up.
\<close>

theorem settled_weight_above_mean:
  "is_stable \<lparr>readings = [8 / 10000, 8 / 10000], last_sent_weight = None, last_sent_time = None\<rparr>
      (1 / 100) 2 = Inr True \<and>
   get_stable_weight
     \<lparr>readings = [8 / 10000, 8 / 10000], last_sent_weight = None, last_sent_time = None\<rparr>
     = 1 / 1000 \<and>
   sum_list [8 / 10000, 8 / 10000 :: real] / real (length [8 / 10000, 8 / 10000 :: real])
     = 8 / 10000 \<and>
   \<not> get_stable_weight
       \<lparr>readings = [8 / 10000, 8 / 10000], last_sent_weight = None, last_sent_time = None\<rparr>
     < sum_list [8 / 10000, 8 / 10000 :: real] / real (length [8 / 10000, 8 / 10000 :: real])"
  by (simp add: is_stable_def last_n_def py_max_def py_min_def get_stable_weight_def py_round_def
      round_half_even_def Let_def)

section \<open>The reader loop and the sinks\<close>

lemma loop_turn_fail:
  "\<not> port_open s \<Longrightarrow> \<not> connect_ok t \<Longrightarrow>
   loop_turn cfg s t = (s\<lparr>reconnect_delay := min (reconnect_delay s * 2) 30\<rparr>,
                        [RetrySleep (reconnect_delay s)], None)"
  by (simp add: loop_turn_def max_delay_def)

lemma read_async_delay:
  "reconnect_delay (fst (read_async cfg s r)) = reconnect_delay s"
  by (simp add: read_async_def split: read_result.splits)

lemma loop_turn_delay:
  "reconnect_delay (fst (loop_turn cfg s t))
     = (if port_open s then reconnect_delay s
        else if connect_ok t then 1 else min (reconnect_delay s * 2) 30)"
proof -
  have *: "reconnect_delay (fst (case read_async cfg s1 r of
             (s2, None) \<Rightarrow> (s2, [IdleSleep (1 / 10)], None)
           | (s2, Some d) \<Rightarrow>
               (case process_reading cfg (state s2) d e of
                  (p, out) \<Rightarrow>
                    (s2\<lparr>state := p\<rparr>, [Processed out],
                     case out of Failed err \<Rightarrow> Some err
                     | Emitted _ _ (Some err) \<Rightarrow> Some err
                     | _ \<Rightarrow> None)))) = reconnect_delay s1" for s1 r e
    using read_async_delay[of cfg s1 r]
    by (auto split: prod.splits option.splits)
  show ?thesis
    unfolding loop_turn_def Let_def by (simp add: * max_delay_def)
qed


lemma min_double:
  fixes d :: real
  assumes "0 < d"
  shows "min (min (d * 2) 30 * 2 ^ i) 30 = min (d * (2 * 2 ^ i)) 30"
proof (cases "d * 2 \<le> 30")
  case True
  then show ?thesis by (simp add: mult.assoc)
next
  case False
  have p: "(1::real) \<le> 2 ^ i" by simp
  from False have a: "min (d * 2) 30 = 30" by simp
  have "30 * 1 \<le> 30 * (2::real) ^ i" using p by (intro mult_left_mono) auto
  then have l: "min (30 * 2 ^ i) (30::real) = 30" by simp
  have "d * 2 * 1 \<le> d * 2 * 2 ^ i" using p assms by (intro mult_left_mono) auto
  then have "d * 2 \<le> d * (2 * 2 ^ i)" by (simp only: mult.assoc mult_1_right)
  with False have "30 \<le> d * (2 * 2 ^ i)" by linarith
  then have r: "min (d * (2 * 2 ^ i)) 30 = 30" by simp
  show ?thesis by (simp only: a l r)
qed

lemma failures_backoff:
  assumes "\<not> port_open s" "0 < reconnect_delay s" "reconnect_delay s \<le> 30"
    "list_all (\<lambda>t. \<not> connect_ok t) ts"
  shows "scale_reader_loop cfg s ts
       = (s\<lparr>reconnect_delay := min (reconnect_delay s * 2 ^ length ts) 30\<rparr>,
          map (\<lambda>i. RetrySleep (min (reconnect_delay s * 2 ^ i) 30)) [0..<length ts], None)"
  using assms
proof (induction ts arbitrary: s)
  case Nil
  then show ?case by simp
next
  case (Cons t ts)
  define d where "d = reconnect_delay s"
  let ?s1 = "s\<lparr>reconnect_delay := min (d * 2) 30\<rparr>"
  have d: "0 < d" "d \<le> 30" using Cons.prems by (simp_all add: d_def)
  have t: "loop_turn cfg s t = (?s1, [RetrySleep d], None)"
    using Cons.prems by (simp add: loop_turn_fail d_def)
  have "scale_reader_loop cfg ?s1 ts
       = (?s1\<lparr>reconnect_delay := min (reconnect_delay ?s1 * 2 ^ length ts) 30\<rparr>,
          map (\<lambda>i. RetrySleep (min (reconnect_delay ?s1 * 2 ^ i) 30)) [0..<length ts], None)"
    using Cons.prems d by (intro Cons.IH) auto
  then have ih: "scale_reader_loop cfg ?s1 ts
       = (s\<lparr>reconnect_delay := min (d * (2 * 2 ^ length ts)) 30\<rparr>,
          map (\<lambda>i. RetrySleep (min (d * (2 * 2 ^ i)) 30)) [0..<length ts], None)"
    by (simp add: min_double[OF d(1)])
  have u: "[0..<length (t # ts)] = 0 # map Suc [0..<length ts]"
    by (simp add: upt_conv_Cons map_Suc_upt del: upt_Suc)
  have "scale_reader_loop cfg s (t # ts)
      = (s\<lparr>reconnect_delay := min (d * (2 * 2 ^ length ts)) 30\<rparr>,
         RetrySleep d # map (\<lambda>i. RetrySleep (min (d * (2 * 2 ^ i)) 30)) [0..<length ts], None)"
    by (simp only: scale_reader_loop.simps t ih prod.case option.case append.simps)
  also have "\<dots> = (s\<lparr>reconnect_delay := min (d * 2 ^ length (t # ts)) 30\<rparr>,
          map (\<lambda>i. RetrySleep (min (d * 2 ^ i) 30)) [0..<length (t # ts)], None)"
    unfolding u using d(2) by (simp add: o_def)
  finally show ?case unfolding d_def .
qed

lemma scenario_backoff:
  assumes "\<not> connect_ok f" "connect_ok ok" "line ok = SerialException"
  shows "snd (scale_reader_loop cfg initial_state [f, f, f, ok, f])
       = ([RetrySleep 1, RetrySleep 2, RetrySleep 4, IdleSleep (1 / 10), RetrySleep 1], None)"
  using assms
  by (simp add: loop_turn_def initial_state_def max_delay_def read_async_def Let_def)

text \<open>
  Claim C7. The delay before a retry starts at 1 second. A failed \<^verbatim>\<open>connect\<close>
  sleeps for the current delay and doubles it, up to 30 seconds; a successful
  \<^verbatim>\<open>connect\<close> sets it to 1 at once; a turn with the port open leaves it alone. So
  the delays of consecutive failures from a delay of 1 are 1, 2, 4, ..., capped at 30;
  and after three failures (1, 2, 4), a successful connect and the loss of the link, the
  next failure sleeps for 1 second.
\<close>

theorem reconnect_backoff:
  "reconnect_delay initial_state = 1 \<and> \<not> port_open initial_state \<and>
   (\<not> port_open s \<and> \<not> connect_ok t \<longrightarrow>
      loop_turn cfg s t = (s\<lparr>reconnect_delay := min (reconnect_delay s * 2) 30\<rparr>,
                           [RetrySleep (reconnect_delay s)], None)) \<and>
   (\<not> port_open s \<and> connect_ok t \<longrightarrow> reconnect_delay (fst (loop_turn cfg s t)) = 1) \<and>
   (port_open s \<longrightarrow> reconnect_delay (fst (loop_turn cfg s t)) = reconnect_delay s) \<and>
   (\<not> port_open s \<and> reconnect_delay s = 1 \<and> list_all (\<lambda>t. \<not> connect_ok t) ts \<longrightarrow>
      scale_reader_loop cfg s ts
        = (s\<lparr>reconnect_delay := min (2 ^ length ts) 30\<rparr>,
           map (\<lambda>i. RetrySleep (min (2 ^ i) 30)) [0..<length ts], None)) \<and>
   (\<not> connect_ok f \<and> connect_ok ok \<and> line ok = SerialException \<longrightarrow>
      snd (scale_reader_loop cfg initial_state [f, f, f, ok, f])
        = ([RetrySleep 1, RetrySleep 2, RetrySleep 4, IdleSleep (1 / 10), RetrySleep 1], None))"
proof -
  have 1: "reconnect_delay initial_state = 1 \<and> \<not> port_open initial_state"
    by (simp add: initial_state_def)
  have 2: "scale_reader_loop cfg s ts
        = (s\<lparr>reconnect_delay := min (2 ^ length ts) 30\<rparr>,
           map (\<lambda>i. RetrySleep (min (2 ^ i) 30)) [0..<length ts], None)"
    if "\<not> port_open s" "reconnect_delay s = 1" "list_all (\<lambda>t. \<not> connect_ok t) ts"
    using failures_backoff[OF that(1) _ _ that(3), of cfg] that(2) by simp
  show ?thesis
    using 1 2 loop_turn_fail[of s t cfg] loop_turn_delay[of cfg s t] scenario_backoff[of f ok cfg]
    by simp
qed

text \<open>
  Seven failures in a row from the initial state, a successful connect from a delay of 4,
  a turn with the port open, and the scenario of the claim.
\<close>

theorem reconnect_backoff_witness:
  "\<not> port_open initial_state \<and> \<not> connect_ok fail_turn \<and>
   loop_turn DEFAULT_CONFIG initial_state fail_turn
     = (initial_state\<lparr>reconnect_delay := 2\<rparr>, [RetrySleep 1], None) \<and>
   connect_ok lost_turn \<and>
   reconnect_delay (fst (loop_turn DEFAULT_CONFIG (initial_state\<lparr>reconnect_delay := 4\<rparr>) lost_turn))
     = 1 \<and>
   port_open open_state \<and>
   reconnect_delay (fst (loop_turn DEFAULT_CONFIG open_state lost_turn)) = 8 \<and>
   list_all (\<lambda>t. \<not> connect_ok t) (replicate 7 fail_turn) \<and>
   fst (snd (scale_reader_loop DEFAULT_CONFIG initial_state (replicate 7 fail_turn)))
     = [RetrySleep 1, RetrySleep 2, RetrySleep 4, RetrySleep 8, RetrySleep 16, RetrySleep 30,
        RetrySleep 30] \<and>
   line lost_turn = SerialException \<and>
   snd (scale_reader_loop DEFAULT_CONFIG initial_state
          [fail_turn, fail_turn, fail_turn, lost_turn, fail_turn])
     = ([RetrySleep 1, RetrySleep 2, RetrySleep 4, IdleSleep (1 / 10), RetrySleep 1], None)"
proof -
  have h: "\<not> port_open initial_state" "\<not> connect_ok fail_turn" "connect_ok lost_turn"
    "port_open open_state" "line lost_turn = SerialException" "reconnect_delay initial_state = 1"
    "\<not> port_open (initial_state\<lparr>reconnect_delay := 4\<rparr>)" "reconnect_delay open_state = 8"
    "list_all (\<lambda>t. \<not> connect_ok t) (replicate 7 fail_turn)"
    by (simp_all add: initial_state_def fail_turn_def lost_turn_def open_state_def list_all_iff)
  have u: "[0..<7] = [0, 1, 2, 3, 4, 5, 6]" by (simp add: upt_rec)
  from reconnect_backoff[of initial_state fail_turn DEFAULT_CONFIG "replicate 7 fail_turn"
      fail_turn lost_turn]
    reconnect_backoff[of "initial_state\<lparr>reconnect_delay := 4\<rparr>" lost_turn DEFAULT_CONFIG "[]"
      fail_turn lost_turn]
    reconnect_backoff[of open_state lost_turn DEFAULT_CONFIG "[]" fail_turn lost_turn] h
  show ?thesis by (simp add: u)
qed












end
